theory Spec2Isabelle
  imports Main
begin

section \<open>The route gate of the portfolio site\<close>

text \<open>
  The source under study is \<^verbatim>\<open>src/middleware.ts\<close>:
  \<^verbatim>\<open>
  export function middleware(req: NextRequest) {
      const pathname = req.nextUrl.pathname;
      if (pathname in routes && !routes[pathname as keyof typeof routes]) {
          return NextResponse.rewrite(new URL("/not-found", req.url));
      }
      const basePathname = pathname.substring(0, pathname.indexOf("/", 1));
      if (basePathname in routes && !routes[basePathname as keyof typeof routes]) {
          return NextResponse.rewrite(new URL("/not-found", req.url));
      }
      return NextResponse.next();
  }
  export const config = {
      matcher: ["/about", "/work/:path*", "/blog/:path*", "/gallery"],
  }
  \<close>
  The function has no state and no loop of its own; everything it does is two string
  primitives of the language, two lookups in a constant object and the construction of a
  URL. Each of these is written out below with the behaviour the language gives it at the
  edges (a search that finds nothing, an end index below zero), since the properties of
  the gate depend on exactly those edges.
\<close>

subsection \<open>Data\<close>

text \<open>
  A parsed absolute URL, with the component names of the platform's \<^verbatim>\<open>URL\<close> class. A
  request carries two of them: \<^verbatim>\<open>req.url\<close>, the address the request was sent to (a
  valid absolute http or https address, kept here in parsed form), and
  \<^verbatim>\<open>req.nextUrl\<close>, the framework's view of it, whose \<^verbatim>\<open>pathname\<close> the gate reads.
\<close>

record URL =
  protocol :: string
  username :: string
  password :: string
  hostname :: string
  port :: string
  pathname :: string
  search :: string
  hash :: string

record NextRequest =
  url :: URL
  nextUrl :: URL

text \<open>The two responses the gate builds: \<^verbatim>\<open>NextResponse.rewrite(u)\<close> and \<^verbatim>\<open>NextResponse.next()\<close>.\<close>

datatype NextResponse = is_Rewrite: Rewrite URL | Next

text \<open>
  The object \<^verbatim>\<open>routes\<close> is a constant of the site's resources module
  (\<^verbatim>\<open>@/app/resources\<close>); the gate only reads it, and the model takes it as a parameter:
  a table from path keys to boolean flags. A key that is missing is \<open>None\<close>.
\<close>

type_synonym routes = "string \<rightharpoonup> bool"

record Config =
  matcher :: "string list"

subsection \<open>Library primitives\<close>

text \<open>
  \<^verbatim>\<open>s.indexOf(t, position)\<close>: the position is clamped into \<open>0 .. length s\<close>, the result is
  the least index from there on at which \<open>t\<close> occurs in \<open>s\<close>, and \<open>-1\<close> when there is
  none. The helper walks the remaining suffix and counts the index.
\<close>

fun index_in :: "string \<Rightarrow> string \<Rightarrow> nat \<Rightarrow> int" where
  "index_in t [] k = (if t = [] then int k else - 1)"
| "index_in t (c # cs) k =
     (if take (length t) (c # cs) = t then int k else index_in t cs (Suc k))"

definition indexOf :: "string \<Rightarrow> string \<Rightarrow> int \<Rightarrow> int" where
  "indexOf s t position =
     (let start = nat (min (max position 0) (int (length s)))
      in index_in t (drop start s) start)"

text \<open>
  \<^verbatim>\<open>s.substring(indexStart, indexEnd)\<close>: both indices are clamped into \<open>0 .. length s\<close>
  (so a negative one counts as \<open>0\<close>), they are swapped when the first is the larger, and
  the characters between them are returned. It never raises.
\<close>

definition substring :: "string \<Rightarrow> int \<Rightarrow> int \<Rightarrow> string" where
  "substring s indexStart indexEnd =
     (let len = int (length s);
          finalStart = min (max indexStart 0) len;
          finalEnd = min (max indexEnd 0) len;
          lo = min finalStart finalEnd;
          hi = max finalStart finalEnd
      in take (nat (hi - lo)) (drop (nat lo) s))"

text \<open>
  \<^verbatim>\<open>new URL(path, base)\<close> for a \<open>path\<close> that starts with a slash and has neither
  \<^verbatim>\<open>?\<close> nor \<^verbatim>\<open>#\<close> in it: scheme, credentials, host and port are those of the base, the
  path is the given one, query and fragment are empty.
\<close>

definition new_URL :: "string \<Rightarrow> URL \<Rightarrow> URL" where
  "new_URL path base = base\<lparr>pathname := path, search := [], hash := []\<rparr>"

text \<open>The origin of a URL: scheme, host and port.\<close>

definition origin :: "URL \<Rightarrow> string \<times> string \<times> string" where
  "origin u = (protocol u, hostname u, port u)"

subsection \<open>The gate\<close>

text \<open>
  The test \<^verbatim>\<open>key in routes && !routes[key]\<close>: the key is present and its flag is false.
  (The operator \<^verbatim>\<open>in\<close> also answers yes for the names every object inherits, such as
  \<^verbatim>\<open>toString\<close>; their values are functions and objects, all truthy, so the test is
  false for them exactly as it is for a missing key.)
\<close>

definition disabled :: "routes \<Rightarrow> string \<Rightarrow> bool" where
  "disabled rs key = (case rs key of None \<Rightarrow> False | Some flag \<Rightarrow> \<not> flag)"

text \<open>The local constant \<^verbatim>\<open>basePathname\<close>.\<close>

definition basePathname :: "string \<Rightarrow> string" where
  "basePathname p = substring p 0 (indexOf p ''/'' 1)"

definition middleware :: "routes \<Rightarrow> NextRequest \<Rightarrow> NextResponse" where
  "middleware rs req =
     (let p = pathname (nextUrl req) in
      if disabled rs p then Rewrite (new_URL ''/not-found'' (url req))
      else if disabled rs (basePathname p) then Rewrite (new_URL ''/not-found'' (url req))
      else Next)"

definition config :: Config where
  "config = \<lparr>matcher = [''/about'', ''/work/:path*'', ''/blog/:path*'', ''/gallery'']\<rparr>"

subsection \<open>Reading a matcher pattern\<close>

text \<open>
  In the framework's pattern language a trailing \<^verbatim>\<open>/:path*\<close> stands for zero or more
  further path segments; a pattern without parameters stands for itself. The function
  below only classifies a pattern of the configuration accordingly; matching a request
  against the patterns is done by the framework, outside the repository.
\<close>

datatype route_pattern = Exact string | WithNested string

definition read_pattern :: "string \<Rightarrow> route_pattern" where
  "read_pattern s =
     (let suffix = ''/:path*''; n = length s - length suffix
      in if length suffix \<le> length s \<and> drop n s = suffix
         then WithNested (take n s) else Exact s)"

subsection \<open>The vocabulary of the specification\<close>

text \<open>
  The base segment as the specification words it: the path from its start up to, and
  without, the next slash after its first character, and the whole path when there is no
  such slash. It is written independently of \<^verbatim>\<open>indexOf\<close> and \<^verbatim>\<open>substring\<close>, to be compared
  with the value the gate computes.
\<close>

definition spec_base_segment :: "string \<Rightarrow> string" where
  "spec_base_segment p =
     (case p of [] \<Rightarrow> [] | c # cs \<Rightarrow> c # takeWhile (\<lambda>x. x \<noteq> CHR ''/'') cs)"

text \<open>
  Modelled from the spec: the module that holds \<^verbatim>\<open>routes\<close> is missing; the data model
  describes its keys as top-level path segments such as \<^verbatim>\<open>/about\<close>, each with its leading
  slash. A path is called malformed when it does not start with a slash; the empty path is
  one of them.
\<close>

fun leading_slash :: "string \<Rightarrow> bool" where
  "leading_slash [] = False"
| "leading_slash (c # cs) = (c = CHR ''/'')"

definition slash_leading_keys :: "routes \<Rightarrow> bool" where
  "slash_leading_keys rs = (\<forall>k \<in> dom rs. leading_slash k)"

subsection \<open>Sample requests\<close>

text \<open>Concrete requests to the site, used to run the gate on explicit inputs.\<close>

definition site_url :: "string \<Rightarrow> URL" where
  "site_url p = \<lparr>protocol = ''https:'', username = [], password = [],
     hostname = ''alvaromanoso.dev'', port = [], pathname = p, search = [], hash = []\<rparr>"

definition local_url :: "string \<Rightarrow> URL" where
  "local_url p = \<lparr>protocol = ''http:'', username = [], password = [],
     hostname = ''localhost'', port = ''3000'', pathname = p, search = ''?page=2'', hash = []\<rparr>"

definition request_for :: "string \<Rightarrow> NextRequest" where
  "request_for p = \<lparr>url = site_url p, nextUrl = site_url p\<rparr>"

definition local_request_for :: "string \<Rightarrow> NextRequest" where
  "local_request_for p = \<lparr>url = local_url p, nextUrl = local_url p\<rparr>"

section \<open>Properties of the primitives\<close>

lemma index_in_absent: "c \<notin> set s \<Longrightarrow> index_in [c] s k = - 1"
  by (induction s arbitrary: k) auto

lemma index_in_first:
  "c \<notin> set s \<Longrightarrow> index_in [c] (s @ c # r) k = int (k + length s)"
  by (induction s arbitrary: k) auto

lemma index_in_bounds: "- 1 \<le> index_in t s k \<and> index_in t s k \<le> int (k + length s)"
proof (induction s arbitrary: k)
  case Nil
  show ?case by simp
next
  case (Cons c cs)
  from Cons.IH [of "Suc k"] show ?case by auto
qed

lemma indexOf_bounds: "- 1 \<le> indexOf s t pos \<and> indexOf s t pos \<le> int (length s)"
proof -
  define start where "start = nat (min (max pos 0) (int (length s)))"
  have "start \<le> length s" by (simp add: start_def)
  then have "start + length (drop start s) = length s" by simp
  with index_in_bounds [of t "drop start s" start] show ?thesis
    by (simp add: indexOf_def start_def [symmetric] Let_def)
qed

lemma substring_length: "length (substring s a b) \<le> length s"
proof -
  have "length (take n (drop m s)) \<le> length s" for n m
    by simp
  then show ?thesis
    by (simp only: substring_def Let_def)
qed

lemma substring_from_start:
  "substring s 0 e = take (nat e) s"
  by (cases "e \<le> int (length s)") (auto simp: substring_def Let_def max_def min_def)

text \<open>
  When no slash occurs at index 1 or later the search answers \<open>-1\<close>, which
  \<^verbatim>\<open>substring\<close> reads as \<open>0\<close>: the computed base segment is the empty string.
\<close>

lemma basePathname_no_slash:
  "CHR ''/'' \<notin> set (drop 1 p) \<Longrightarrow> basePathname p = []"
  by (cases p) (simp_all add: basePathname_def indexOf_def substring_def index_in_absent)

text \<open>
  A non-empty key with no slash after its first character is the computed base segment of
  every path that continues it with a slash.
\<close>

lemma basePathname_prefix:
  assumes "key \<noteq> []" and "CHR ''/'' \<notin> set (tl key)"
  shows "basePathname (key @ ''/'' @ rest) = key"
proof -
  obtain c cs where k: "key = c # cs"
    using assms(1) by (cases key) auto
  with assms(2) have "CHR ''/'' \<notin> set cs" by simp
  then have "index_in ''/'' (cs @ CHR ''/'' # rest) 1 = int (1 + length cs)"
    by (rule index_in_first)
  moreover have "nat (1 + int (length cs)) = Suc (length cs)" by simp
  ultimately show ?thesis
    by (simp add: basePathname_def indexOf_def substring_def k)
qed

lemma disabled_iff: "disabled rs key \<longleftrightarrow> rs key = Some False"
  by (simp add: disabled_def split: option.split)

text \<open>
  The computed base segment is always an initial part of the path, and it agrees with the
  base segment of the specification exactly on the paths that have a slash at index 1 or
  later.
\<close>

lemma basePathname_take: "basePathname p = take (nat (indexOf p ''/'' 1)) p"
  by (simp add: basePathname_def substring_from_start)


lemma basePathname_with_slash:
  assumes "CHR ''/'' \<in> set (drop 1 p)"
  shows "basePathname p = spec_base_segment p"
proof -
  obtain c cs where p: "p = c # cs"
    using assms by (cases p) auto
  with assms have "CHR ''/'' \<in> set cs" by simp
  then obtain ys zs where cs: "cs = ys @ CHR ''/'' # zs" and ys: "CHR ''/'' \<notin> set ys"
    by (auto dest: split_list_first)
  have "basePathname ((c # ys) @ ''/'' @ zs) = c # ys"
    using ys by (intro basePathname_prefix) simp_all
  moreover have "spec_base_segment (c # ys @ CHR ''/'' # zs) = c # ys"
    using ys by (auto simp add: spec_base_segment_def takeWhile_tail)
  ultimately show ?thesis by (simp add: p cs)
qed

lemma basePathname_spec:
  "basePathname p = (if CHR ''/'' \<in> set (drop 1 p) then spec_base_segment p else [])"
  by (simp add: basePathname_with_slash basePathname_no_slash)

lemma leading_slash_take: "\<not> leading_slash p \<Longrightarrow> \<not> leading_slash (take n p)"
  by (cases p; cases n) simp_all

lemma slash_leading_keys_absent:
  "slash_leading_keys rs \<Longrightarrow> \<not> leading_slash k \<Longrightarrow> \<not> disabled rs k"
  by (auto simp add: slash_leading_keys_def disabled_iff)

lemma middleware_unfold:
  "middleware rs req =
     (if disabled rs (pathname (nextUrl req)) \<or> disabled rs (basePathname (pathname (nextUrl req)))
      then Rewrite (new_URL ''/not-found'' (url req)) else Next)"
  by (simp add: middleware_def Let_def)

lemma new_URL_origin: "origin (new_URL path base) = origin base"
  by (simp add: new_URL_def origin_def)

lemma new_URL_pathname: "pathname (new_URL path base) = path"
  by (simp add: new_URL_def)

subsection \<open>The scenarios of the specification\<close>

lemma scenario_gallery:
  "middleware [''/gallery'' \<mapsto> False] (request_for ''/gallery'')
     = Rewrite (site_url ''/not-found'')"
  by (simp add: middleware_unfold disabled_iff request_for_def site_url_def new_URL_def)

lemma scenario_gallery_extra:
  "middleware [''/gallery'' \<mapsto> False] (request_for ''/gallery/extra'')
     = Rewrite (site_url ''/not-found'')"
proof -
  have "basePathname ''/gallery/extra'' = ''/gallery''"
    using basePathname_prefix [of "''/gallery''" "''extra''"] by simp
  then show ?thesis
    by (simp add: middleware_unfold disabled_iff request_for_def site_url_def new_URL_def)
qed

lemma scenario_about:
  "middleware [''/gallery'' \<mapsto> False] (request_for ''/about'') = Next"
  by (simp add: middleware_unfold disabled_iff basePathname_no_slash request_for_def site_url_def)

lemma scenario_work_project:
  "middleware [''/gallery'' \<mapsto> False] (request_for ''/work/my-project'') = Next"
proof -
  have "basePathname ''/work/my-project'' = ''/work''"
    using basePathname_prefix [of "''/work''" "''my-project''"] by simp
  then show ?thesis
    by (simp add: middleware_unfold disabled_iff request_for_def site_url_def)
qed

section \<open>Properties of the gate\<close>

text \<open>
  Claim C1. When the table maps a key to \<open>False\<close> and the path of the request is that
  key, the gate answers with a rewrite to \<^verbatim>\<open>/not-found\<close> on the address of the request.
\<close>

theorem disabled_full_path_rewrites:
  assumes "rs key = Some False" and "pathname (nextUrl req) = key"
  shows "middleware rs req = Rewrite (new_URL ''/not-found'' (url req))"
  using assms by (simp add: middleware_unfold disabled_iff)

theorem disabled_full_path_rewrites_witness:
  "[''/gallery'' \<mapsto> False] ''/gallery'' = Some False
   \<and> pathname (nextUrl (request_for ''/gallery'')) = ''/gallery''
   \<and> middleware [''/gallery'' \<mapsto> False] (request_for ''/gallery'')
       = Rewrite (new_URL ''/not-found'' (url (request_for ''/gallery'')))"
proof -
  have h1: "[''/gallery'' \<mapsto> False] ''/gallery'' = Some False" by simp
  have h2: "pathname (nextUrl (request_for ''/gallery'')) = ''/gallery''"
    by (simp add: request_for_def site_url_def)
  from disabled_full_path_rewrites
    [where rs = "[''/gallery'' \<mapsto> False]" and key = "''/gallery''"
       and req = "request_for ''/gallery''", OF h1 h2] h1 h2 show ?thesis by simp
qed

text \<open>
  Claim C2. Let the table map a key to \<open>False\<close>, the key being a base segment: it is not
  empty and has no slash after its first character. For every path that is the key, a
  slash and any further text, the base segment the gate computes is the key, and the gate
  answers with a rewrite to \<^verbatim>\<open>/not-found\<close>.
\<close>

theorem disabled_base_segment_rewrites:
  assumes "rs key = Some False"
    and "key \<noteq> []" and "CHR ''/'' \<notin> set (tl key)"
    and "pathname (nextUrl req) = key @ ''/'' @ rest"
  shows "basePathname (pathname (nextUrl req)) = key
    \<and> middleware rs req = Rewrite (new_URL ''/not-found'' (url req))"
proof -
  have "basePathname (pathname (nextUrl req)) = key"
    using assms(2-4) basePathname_prefix [of key rest] by simp
  with assms(1) show ?thesis
    by (simp add: middleware_unfold disabled_iff)
qed

theorem disabled_base_segment_rewrites_witness:
  "[''/gallery'' \<mapsto> False] ''/gallery'' = Some False
   \<and> ''/gallery'' \<noteq> [] \<and> CHR ''/'' \<notin> set (tl ''/gallery'')
   \<and> pathname (nextUrl (request_for ''/gallery/extra/deep'')) = ''/gallery'' @ ''/'' @ ''extra/deep''
   \<and> basePathname (pathname (nextUrl (request_for ''/gallery/extra/deep''))) = ''/gallery''
   \<and> middleware [''/gallery'' \<mapsto> False] (request_for ''/gallery/extra/deep'')
       = Rewrite (new_URL ''/not-found'' (url (request_for ''/gallery/extra/deep'')))"
proof -
  have h1: "[''/gallery'' \<mapsto> False] ''/gallery'' = Some False" by simp
  have h2: "''/gallery'' \<noteq> []" by simp
  have h3: "CHR ''/'' \<notin> set (tl ''/gallery'')" by simp
  have h4: "pathname (nextUrl (request_for ''/gallery/extra/deep'')) = ''/gallery'' @ ''/'' @ ''extra/deep''"
    by (simp add: request_for_def site_url_def)
  from disabled_base_segment_rewrites
    [where rs = "[''/gallery'' \<mapsto> False]" and key = "''/gallery''"
       and req = "request_for ''/gallery/extra/deep''" and rest = "''extra/deep''",
     OF h1 h2 h3 h4] h1 h2 h3 h4 show ?thesis by blast
qed

text \<open>
  Claim C3 says that for a path without a slash at index 1 or later the second step
  computes the whole path, or something that compares equal to it, and so never changes
  the outcome of the first step. On \<^verbatim>\<open>/about\<close> the computed base segment is the empty
  string, which differs from the path; with a table that disables the empty key the first
  step does not fire and the gate still rewrites.
\<close>

theorem no_second_slash_counterexample:
  "CHR ''/'' \<notin> set (drop 1 ''/about'')
   \<and> basePathname ''/about'' = []
   \<and> basePathname ''/about'' \<noteq> ''/about''
   \<and> \<not> disabled [[] \<mapsto> False] ''/about''
   \<and> middleware [[] \<mapsto> False] (request_for ''/about'')
       = Rewrite (new_URL ''/not-found'' (url (request_for ''/about'')))"
  by (simp add: basePathname_no_slash middleware_unfold disabled_iff request_for_def site_url_def)

text \<open>
  Claim C3, as the code has it. For a path without a slash at index 1 or later the
  extraction does not fail and answers the empty string, which is the whole path only when
  the path is empty; when the empty string is not a disabled key, the second step changes
  nothing and the gate answers what the test of the full path alone would answer.
\<close>

theorem no_second_slash_base_is_empty:
  assumes "CHR ''/'' \<notin> set (drop 1 p)" and "pathname (nextUrl req) = p"
    and "\<not> disabled rs []"
  shows "basePathname p = [] \<and> (basePathname p = p \<longleftrightarrow> p = [])
    \<and> middleware rs req
        = (if disabled rs p then Rewrite (new_URL ''/not-found'' (url req)) else Next)"
  using assms by (auto simp add: basePathname_no_slash middleware_unfold)

theorem no_second_slash_base_is_empty_witness:
  "CHR ''/'' \<notin> set (drop 1 ''/about'')
   \<and> pathname (nextUrl (request_for ''/about'')) = ''/about''
   \<and> \<not> disabled [''/gallery'' \<mapsto> False] []
   \<and> \<not> disabled [''/gallery'' \<mapsto> False] ''/about''
   \<and> basePathname ''/about'' = [] \<and> basePathname ''/about'' \<noteq> ''/about''
   \<and> middleware [''/gallery'' \<mapsto> False] (request_for ''/about'') = Next"
proof -
  let ?rs = "[''/gallery'' \<mapsto> False]"
  have h1: "CHR ''/'' \<notin> set (drop 1 ''/about'')" by simp
  have h2: "pathname (nextUrl (request_for ''/about'')) = ''/about''"
    by (simp add: request_for_def site_url_def)
  have h3: "\<not> disabled ?rs []" by (simp add: disabled_iff)
  have h4: "\<not> disabled ?rs ''/about''" by (simp add: disabled_iff)
  from no_second_slash_base_is_empty
    [where p = "''/about''" and req = "request_for ''/about''" and rs = ?rs, OF h1 h2 h3]
    h1 h2 h3 h4
  show ?thesis by simp
qed







text \<open>
  Claim C6. No step of the gate can raise: on every path the search answers an index
  between \<open>-1\<close> and the length of the path, the extraction answers the initial part of the
  path of that length (none of it for \<open>-1\<close>), and the gate answers one of its two
  responses. With a table whose keys all start with a slash, every malformed path, the
  empty one included, ends in a pass-through.
\<close>

theorem malformed_path_passes:
  assumes "pathname (nextUrl req) = p"
  shows "- 1 \<le> indexOf p ''/'' 1 \<and> indexOf p ''/'' 1 \<le> int (length p)
    \<and> basePathname p = take (nat (indexOf p ''/'' 1)) p
    \<and> (middleware rs req = Next \<or> middleware rs req = Rewrite (new_URL ''/not-found'' (url req)))
    \<and> (slash_leading_keys rs \<and> \<not> leading_slash p \<longrightarrow> middleware rs req = Next)"
proof -
  have "middleware rs req = Next" if keys: "slash_leading_keys rs" and bad: "\<not> leading_slash p"
  proof -
    from bad have "\<not> leading_slash (basePathname p)"
      by (simp only: basePathname_take leading_slash_take not_False_eq_True)
    with keys bad assms show ?thesis
      by (simp add: middleware_unfold slash_leading_keys_absent)
  qed
  then show ?thesis
    using indexOf_bounds [of p "''/''" 1] basePathname_take [of p]
    by (auto simp add: middleware_unfold)
qed

theorem malformed_path_passes_witness:
  "slash_leading_keys [''/gallery'' \<mapsto> False]
   \<and> pathname (nextUrl (request_for [])) = [] \<and> \<not> leading_slash []
   \<and> indexOf [] ''/'' 1 = - 1 \<and> basePathname [] = []
   \<and> middleware [''/gallery'' \<mapsto> False] (request_for []) = Next
   \<and> pathname (nextUrl (request_for ''gallery/extra'')) = ''gallery/extra''
   \<and> \<not> leading_slash ''gallery/extra''
   \<and> indexOf ''gallery/extra'' ''/'' 1 = 7
   \<and> basePathname ''gallery/extra'' = ''gallery''
   \<and> middleware [''/gallery'' \<mapsto> False] (request_for ''gallery/extra'') = Next"
proof -
  let ?rs = "[''/gallery'' \<mapsto> False]"
  have h0: "slash_leading_keys ?rs" by (simp add: slash_leading_keys_def)
  have h1: "pathname (nextUrl (request_for [])) = []"
    by (simp add: request_for_def site_url_def)
  have h2: "pathname (nextUrl (request_for ''gallery/extra'')) = ''gallery/extra''"
    by (simp add: request_for_def site_url_def)
  have h3: "\<not> leading_slash []" "\<not> leading_slash ''gallery/extra''" by simp_all
  have h4: "indexOf [] ''/'' 1 = - 1" "indexOf ''gallery/extra'' ''/'' 1 = 7"
    by (simp_all add: indexOf_def)
  from malformed_path_passes [where rs = ?rs and req = "request_for []" and p = "[]", OF h1]
    malformed_path_passes
      [where rs = ?rs and req = "request_for ''gallery/extra''" and p = "''gallery/extra''",
        OF h2]
    h0 h1 h2 h3 h4
  show ?thesis by simp
qed

text \<open>
  Claim C7. Two requests with the same path get the same kind of response from the same
  table, and the same response when they were also sent to the same address; evaluating
  the gate again on the same request and table is the instance where both coincide.
\<close>

theorem middleware_depends_on_path:
  assumes "pathname (nextUrl r1) = pathname (nextUrl r2)"
  shows "is_Rewrite (middleware rs r1) = is_Rewrite (middleware rs r2)
    \<and> (url r1 = url r2 \<longrightarrow> middleware rs r1 = middleware rs r2)"
  using assms by (simp add: middleware_unfold)

theorem middleware_depends_on_path_witness:
  "pathname (nextUrl (request_for ''/gallery'')) = pathname (nextUrl (local_request_for ''/gallery''))
   \<and> url (request_for ''/gallery'') \<noteq> url (local_request_for ''/gallery'')
   \<and> is_Rewrite (middleware [''/gallery'' \<mapsto> False] (request_for ''/gallery''))
   \<and> is_Rewrite (middleware [''/gallery'' \<mapsto> False] (local_request_for ''/gallery''))
       = is_Rewrite (middleware [''/gallery'' \<mapsto> False] (request_for ''/gallery''))"
proof -
  let ?rs = "[''/gallery'' \<mapsto> False]"
  have h1: "pathname (nextUrl (request_for ''/gallery''))
      = pathname (nextUrl (local_request_for ''/gallery''))"
    by (simp add: request_for_def site_url_def local_request_for_def local_url_def)
  have h2: "url (request_for ''/gallery'') \<noteq> url (local_request_for ''/gallery'')"
    by (simp add: request_for_def site_url_def local_request_for_def local_url_def)
  have h3: "is_Rewrite (middleware ?rs (request_for ''/gallery''))"
    by (simp add: middleware_unfold disabled_iff request_for_def site_url_def)
  from middleware_depends_on_path
    [where ?r1.0 = "request_for ''/gallery''" and ?r2.0 = "local_request_for ''/gallery''"
       and rs = ?rs, OF h1] h1 h2 h3
  show ?thesis by simp
qed

text \<open>
  Claim C8. The response is either a pass-through or a rewrite whose target has the
  origin (scheme, host and port) of the address of the request and the path
  \<^verbatim>\<open>/not-found\<close>.
\<close>

theorem middleware_output_shape:
  "middleware rs req = Next
   \<or> (\<exists>u. middleware rs req = Rewrite u
          \<and> origin u = origin (url req) \<and> pathname u = ''/not-found'')"
  by (simp add: middleware_unfold new_URL_origin new_URL_pathname)

text \<open>
  Claim C9. The configuration lists four patterns, read as: \<^verbatim>\<open>/about\<close> alone,
  \<^verbatim>\<open>/work\<close> with its nested paths, \<^verbatim>\<open>/blog\<close> with its nested paths, and \<^verbatim>\<open>/gallery\<close> alone.
\<close>

theorem config_matcher_patterns:
  "map read_pattern (matcher config)
     = [Exact ''/about'', WithNested ''/work'', WithNested ''/blog'', Exact ''/gallery'']"
  by (simp add: config_def read_pattern_def)

text \<open>
  Claim C10 says that for a path without a slash at index 1 or later the computed base
  segment is the empty string and not the whole path, and that the response equals that of
  the full-path test alone exactly when the empty string is not a disabled key. On the
  empty path the computed base segment is the whole path; and with a table that disables
  the empty key, the response on the empty path equals that of the full-path test alone
  although the empty string is a disabled key.
\<close>

theorem empty_base_counterexample:
  "CHR ''/'' \<notin> set (drop 1 (pathname (nextUrl (request_for []))))
   \<and> basePathname (pathname (nextUrl (request_for []))) = pathname (nextUrl (request_for []))
   \<and> disabled [[] \<mapsto> False] []
   \<and> middleware [[] \<mapsto> False] (request_for [])
       = (if disabled [[] \<mapsto> False] (pathname (nextUrl (request_for [])))
          then Rewrite (new_URL ''/not-found'' (url (request_for []))) else Next)"
  by (simp add: basePathname_no_slash middleware_unfold disabled_iff request_for_def site_url_def)

text \<open>
  Claim C10, as the code has it. For a path without a slash at index 1 or later the
  computed base segment is the empty string, which is the whole path only when the path is
  empty; the response equals that of the full-path test alone exactly when the empty
  string is not a disabled key or the path itself is a disabled key.
\<close>

theorem empty_base_full_path_check:
  assumes "CHR ''/'' \<notin> set (drop 1 p)" and "pathname (nextUrl req) = p"
  shows "basePathname p = [] \<and> (basePathname p = p \<longleftrightarrow> p = [])
    \<and> (middleware rs req
          = (if disabled rs p then Rewrite (new_URL ''/not-found'' (url req)) else Next)
        \<longleftrightarrow> \<not> disabled rs [] \<or> disabled rs p)"
  using assms by (auto simp add: basePathname_no_slash middleware_unfold)

theorem empty_base_full_path_check_witness:
  "CHR ''/'' \<notin> set (drop 1 ''/about'')
   \<and> pathname (nextUrl (request_for ''/about'')) = ''/about''
   \<and> basePathname ''/about'' = [] \<and> basePathname ''/about'' \<noteq> ''/about''
   \<and> disabled [[] \<mapsto> False] [] \<and> \<not> disabled [[] \<mapsto> False] ''/about''
   \<and> middleware [[] \<mapsto> False] (request_for ''/about'') \<noteq> Next"
proof -
  let ?rs = "[[] \<mapsto> False] :: routes"
  have h1: "CHR ''/'' \<notin> set (drop 1 ''/about'')" by simp
  have h2: "pathname (nextUrl (request_for ''/about'')) = ''/about''"
    by (simp add: request_for_def site_url_def)
  have h3: "disabled ?rs []" by (simp add: disabled_iff)
  have h4: "\<not> disabled ?rs ''/about''" by (simp add: disabled_iff)
  from empty_base_full_path_check
    [where p = "''/about''" and req = "request_for ''/about''" and rs = ?rs, OF h1 h2]
    h1 h2 h3 h4
  show ?thesis by simp
qed

end
